theory Spec2Isabelle
  imports Complex_Main "HOL-Library.Multiset"
begin

section \<open>The instrumental error generator of swot\_simulator\<close>

text \<open>
  A shallow embedding of \<^verbatim>\<open>swot_simulator/error/generator.py\<close>: the class
  \<^verbatim>\<open>Generator\<close>, its constructor and its method \<^verbatim>\<open>generate\<close>.
  Exceptions are values of a sum type, the object is a record passed in and handed back,
  and the collaborators the module imports (the settings object, the spectrum reader, the
  six error classes, the dask client) are data or parameters of the model.
\<close>

subsection \<open>Exceptions\<close>

text \<open>
  \<^verbatim>\<open>AssertionError\<close> is raised by the \<^verbatim>\<open>assert\<close> of the constructor,
  \<^verbatim>\<open>ValueError\<close> by its last branch (the argument is the message). \<open>External\<close>
  stands for whatever a collaborator raises: the spectrum reader, or the
  \<^verbatim>\<open>generate\<close> method of an error class running on a worker.
\<close>

datatype error = AssertionError | ValueError string | External string

subsection \<open>Settings, spectrum, error classes\<close>

type_synonym ndarray = "real list"

text \<open>
  Modelled from the spec: \<^verbatim>\<open>settings.Parameters\<close> is not part of the module. Only the
  four attributes the module reads are kept; \<^verbatim>\<open>error_spectrum\<close> may be
  \<^verbatim>\<open>None\<close>, which is what the constructor's \<^verbatim>\<open>assert\<close> tests.
\<close>

record parameters =
  error_spectrum :: "string option"
  delta_al :: real
  len_repeat :: real
  noise :: "string list"

text \<open>
  Modelled from the spec: the value \<^verbatim>\<open>utils.read_file_instr\<close> returns. The
  calibration source exposes the channels \<^verbatim>\<open>dilationPSD\<close>, \<^verbatim>\<open>rollPSD\<close>,
  \<^verbatim>\<open>phasePSD\<close>, \<^verbatim>\<open>timingPSD\<close> and \<^verbatim>\<open>spatial_frequency\<close>, and the loader
  fails when one is absent, so \<^verbatim>\<open>error_spectrum['dilationPSD'].data\<close> is a field
  selection here.
\<close>

record spectrum =
  dilationPSD :: ndarray
  rollPSD :: ndarray
  phasePSD :: ndarray
  timingPSD :: ndarray
  spatial_frequency :: ndarray

text \<open>
  An instance of one of the six error classes, with the arguments its constructor was
  called with. The classes themselves live in sibling modules; their constructors are
  taken to return.
\<close>

datatype model =
    Altimeter parameters
  | BaselineDilation parameters ndarray ndarray
  | Karin parameters
  | RollPhase parameters ndarray ndarray ndarray
  | Timing parameters ndarray ndarray
  | WetTroposphere parameters

text \<open>\<^verbatim>\<open>type(item).__name__\<close>: the name of the class of an instance.\<close>

fun class_name :: "model \<Rightarrow> string" where
  "class_name (Altimeter _) = ''Altimeter''"
| "class_name (BaselineDilation _ _ _) = ''BaselineDilation''"
| "class_name (Karin _) = ''Karin''"
| "class_name (RollPhase _ _ _ _) = ''RollPhase''"
| "class_name (Timing _ _ _) = ''Timing''"
| "class_name (WetTroposphere _) = ''WetTroposphere''"

definition class_names :: "string list" where
  "class_names =
     [''Altimeter'', ''BaselineDilation'', ''Karin'', ''RollPhase'', ''Timing'',
      ''WetTroposphere'']"

subsection \<open>The constructor\<close>

text \<open>
  One turn of the loop over \<^verbatim>\<open>parameters.noise\<close>: the \<^verbatim>\<open>if/elif\<close> chain that
  compares \<^verbatim>\<open>item\<close> with each \<^verbatim>\<open>__name__\<close> and builds the instance, or raises.
\<close>

definition instantiate :: "parameters \<Rightarrow> spectrum \<Rightarrow> string \<Rightarrow> error + model" where
  "instantiate params es item =
     (if item = ''Altimeter'' then Inr (Altimeter params)
      else if item = ''BaselineDilation'' then
        Inr (BaselineDilation params (dilationPSD es) (spatial_frequency es))
      else if item = ''Karin'' then Inr (Karin params)
      else if item = ''RollPhase'' then
        Inr (RollPhase params (rollPSD es) (phasePSD es) (spatial_frequency es))
      else if item = ''Timing'' then
        Inr (Timing params (timingPSD es) (spatial_frequency es))
      else if item = ''WetTroposphere'' then Inr (WetTroposphere params)
      else Inl (ValueError (''unknown error generation class: '' @ item)))"

text \<open>
  The loop itself; \<open>gens\<close> is \<^verbatim>\<open>self.generators\<close> so far, and each turn appends to it.
  The first exception ends the loop.
\<close>

fun build :: "parameters \<Rightarrow> spectrum \<Rightarrow> model list \<Rightarrow> string list \<Rightarrow> error + model list" where
  "build params es gens [] = Inr gens"
| "build params es gens (item # items) =
     (case instantiate params es item of
        Inl e \<Rightarrow> Inl e
      | Inr g \<Rightarrow> build params es (gens @ [g]) items)"

text \<open>The object: \<^verbatim>\<open>self.generators\<close> is its only attribute.\<close>

record Generator =
  generators :: "model list"

text \<open>A call of \<^verbatim>\<open>utils.read_file_instr\<close>, with its three arguments.\<close>

datatype io = ReadFileInstr string real real

text \<open>
  The statements before the loop: the \<^verbatim>\<open>assert\<close>, then the call of the reader,
  which is a parameter of the model (\<open>read_file_instr\<close>) and may raise. The first
  component lists the calls of the reader that were made.
\<close>

definition load_spectrum ::
  "(string \<Rightarrow> real \<Rightarrow> real \<Rightarrow> error + spectrum) \<Rightarrow> parameters \<Rightarrow> io list \<times> (error + spectrum)" where
  "load_spectrum read_file_instr params =
     (case error_spectrum params of
        None \<Rightarrow> ([], Inl AssertionError)
      | Some path \<Rightarrow>
          ([ReadFileInstr path (delta_al params) (len_repeat params)],
           read_file_instr path (delta_al params) (len_repeat params)))"

text \<open>
  \<^verbatim>\<open>Generator.__init__\<close>. The result is the new object, or the exception that left
  the constructor, in which case the caller holds no object.
\<close>

definition Generator_init ::
  "(string \<Rightarrow> real \<Rightarrow> real \<Rightarrow> error + spectrum) \<Rightarrow> parameters \<Rightarrow> io list \<times> (error + Generator)" where
  "Generator_init read_file_instr params =
     (case load_spectrum read_file_instr params of
        (calls, Inl e) \<Rightarrow> (calls, Inl e)
      | (calls, Inr es) \<Rightarrow>
          (calls,
           case build params es [] (noise params) of
             Inl e \<Rightarrow> Inl e
           | Inr gens \<Rightarrow> Inr \<lparr>generators = gens\<rparr>))"

subsection \<open>The method generate\<close>

text \<open>
  A unit of work handed to \<^verbatim>\<open>client.submit\<close>: the bound method
  \<^verbatim>\<open>item.generate\<close> (given by the instance) and the positional arguments.
\<close>

datatype arg = Array ndarray | Float real | Integer int

datatype task = Task model "arg list"

text \<open>
  The \<^verbatim>\<open>isinstance\<close> chain of the submission loop. The list holds instances of the six
  classes only, so the chain's missing \<^verbatim>\<open>else\<close> is never reached.
\<close>

fun submit :: "int \<Rightarrow> real \<Rightarrow> ndarray \<Rightarrow> ndarray \<Rightarrow> model \<Rightarrow> task" where
  "submit cycle_number curvilinear_distance x_al x_ac (Altimeter p) =
     Task (Altimeter p) [Array x_al]"
| "submit cycle_number curvilinear_distance x_al x_ac (BaselineDilation p d f) =
     Task (BaselineDilation p d f) [Array x_al, Array x_ac]"
| "submit cycle_number curvilinear_distance x_al x_ac (Karin p) =
     Task (Karin p) [Array x_al, Array x_ac, Float curvilinear_distance, Integer cycle_number]"
| "submit cycle_number curvilinear_distance x_al x_ac (RollPhase p r ph f) =
     Task (RollPhase p r ph f) [Array x_al, Array x_ac]"
| "submit cycle_number curvilinear_distance x_al x_ac (Timing p t f) =
     Task (Timing p t f) [Array x_al, Array x_ac]"
| "submit cycle_number curvilinear_distance x_al x_ac (WetTroposphere p) =
     Task (WetTroposphere p) [Array x_al, Array x_ac]"

text \<open>
  The execution facility, for one call: \<open>compute i t\<close> is what \<^verbatim>\<open>future.result()\<close>
  gives for the \<open>i\<close>-th submitted unit \<open>t\<close> (a mapping, or the exception the unit raised),
  and \<open>completion\<close> is the order in which \<^verbatim>\<open>as_completed\<close> yields the futures, as
  positions in the list of submissions.
\<close>

record 'v facility =
  compute :: "nat \<Rightarrow> task \<Rightarrow> error + (string \<rightharpoonup> 'v)"
  completion :: "nat list"

text \<open>\<^verbatim>\<open>as_completed\<close> yields every future once: the order is a permutation.\<close>

definition completion_order :: "nat \<Rightarrow> nat list \<Rightarrow> bool" where
  "completion_order n order \<longleftrightarrow> mset order = mset [0..<n]"

definition as_completed :: "nat list \<Rightarrow> 'a list \<Rightarrow> 'a list" where
  "as_completed order futures = map (\<lambda>i. futures ! i) order"

text \<open>
  The draining loop: \<^verbatim>\<open>result.update(future.result())\<close> for each future in turn.
  An exception of \<^verbatim>\<open>future.result()\<close> leaves the loop and the method; the local
  \<^verbatim>\<open>result\<close> is lost with the frame.
\<close>

fun drain :: "(string \<rightharpoonup> 'v) \<Rightarrow> (error + (string \<rightharpoonup> 'v)) list \<Rightarrow> error + (string \<rightharpoonup> 'v)" where
  "drain result [] = Inr result"
| "drain result (Inl e # futures) = Inl e"
| "drain result (Inr m # futures) = drain (result ++ m) futures"

text \<open>
  What a call leaves behind: the object after the call, the units submitted to the
  facility, and the value returned or the exception raised.
\<close>

record 'v call =
  self_after :: Generator
  submitted :: "task list"
  returned :: "error + (string \<rightharpoonup> 'v)"

text \<open>\<^verbatim>\<open>Generator.generate\<close>.\<close>

definition generate ::
  "'v facility \<Rightarrow> Generator \<Rightarrow> int \<Rightarrow> real \<Rightarrow> ndarray \<Rightarrow> ndarray \<Rightarrow> 'v call" where
  "generate dask self cycle_number curvilinear_distance x_al x_ac =
     (if generators self = [] \<or> length x_al = 0 then
        \<lparr>self_after = self, submitted = [], returned = Inr Map.empty\<rparr>
      else
        let futures = map (submit cycle_number curvilinear_distance x_al x_ac) (generators self);
            results = map (\<lambda>i. compute dask i (futures ! i)) [0..<length futures]
        in \<lparr>self_after = self, submitted = futures,
            returned = drain Map.empty (as_completed (completion dask) results)\<rparr>)"

text \<open>
  The outcome of the \<open>i\<close>-th future of a call: the facility's answer for the unit
  submitted for the \<open>i\<close>-th active model.
\<close>

definition future_result ::
  "'v facility \<Rightarrow> Generator \<Rightarrow> int \<Rightarrow> real \<Rightarrow> ndarray \<Rightarrow> ndarray \<Rightarrow> nat \<Rightarrow> error + (string \<rightharpoonup> 'v)" where
  "future_result dask self cycle_number curvilinear_distance x_al x_ac i =
     compute dask i (submit cycle_number curvilinear_distance x_al x_ac (generators self ! i))"

subsection \<open>The objects of a call, in a store\<close>

text \<open>
  To say what a call changes, the objects are placed in a store: a list of cells, an
  object's address being its position, and a new object taking the next position. The
  Generator object holds the address of the list \<^verbatim>\<open>self.generators\<close>; a mapping is an
  object of its own, so that two names may or may not denote the same mapping.
\<close>

type_synonym addr = nat

datatype 'v obj = Instance addr | ModelList "model list" | Dict "string \<rightharpoonup> 'v"

type_synonym 'v store = "'v obj list"

text \<open>Creating an object, as the displays \<^verbatim>\<open>{}\<close> and \<^verbatim>\<open>[]\<close> do.\<close>

definition allocate :: "'v store \<Rightarrow> 'v obj \<Rightarrow> addr \<times> 'v store" where
  "allocate h ob = (length h, h @ [ob])"

text \<open>
  Reading \<^verbatim>\<open>self.generators\<close>: the list the object at \<open>self\<close> refers to. There is no
  answer when \<open>self\<close> is not the address of a Generator object.
\<close>

definition self_generators :: "'v store \<Rightarrow> addr \<Rightarrow> model list option" where
  "self_generators h self =
     (if self < length h then
        (case h ! self of
           Instance l \<Rightarrow>
             (if l < length h then
                (case h ! l of ModelList gens \<Rightarrow> Some gens | _ \<Rightarrow> None)
              else None)
         | _ \<Rightarrow> None)
      else None)"

text \<open>
  \<^verbatim>\<open>result.update(m)\<close> on the object at \<open>r\<close>, in place. In the method \<open>r\<close> is always
  the mapping created by its first statement, so the other cases do not occur.
\<close>

definition update :: "'v store \<Rightarrow> addr \<Rightarrow> (string \<rightharpoonup> 'v) \<Rightarrow> 'v store" where
  "update h r m =
     (if r < length h then
        (case h ! r of Dict d \<Rightarrow> h[r := Dict (d ++ m)] | _ \<Rightarrow> h)
      else h)"

text \<open>The draining loop on the store: each completed future updates the object at \<open>r\<close>.\<close>

fun drain_store ::
  "'v store \<Rightarrow> addr \<Rightarrow> (error + (string \<rightharpoonup> 'v)) list \<Rightarrow> 'v store \<times> error option" where
  "drain_store h r [] = (h, None)"
| "drain_store h r (Inl e # futures) = (h, Some e)"
| "drain_store h r (Inr m # futures) = drain_store (update h r m) r futures"

text \<open>
  \<^verbatim>\<open>Generator.generate\<close> on the store, statement by statement: \<^verbatim>\<open>result = {}\<close>
  creates a mapping, the test reads \<^verbatim>\<open>self.generators\<close>, the units are submitted, the
  loop updates the mapping, and the method returns the address of the mapping or raises.
  The result is the store after the call, the units submitted, and the address returned
  or the exception. (The list \<^verbatim>\<open>futures\<close> never leaves the call and is kept as a value.)
\<close>

definition generate_store ::
  "'v facility \<Rightarrow> 'v store \<Rightarrow> addr \<Rightarrow> int \<Rightarrow> real \<Rightarrow> ndarray \<Rightarrow> ndarray \<Rightarrow>
   ('v store \<times> task list \<times> (error + addr)) option" where
  "generate_store dask h self cycle_number curvilinear_distance x_al x_ac =
     (case self_generators h self of
        None \<Rightarrow> None
      | Some gens \<Rightarrow>
          (case allocate h (Dict Map.empty) of
             (result, h1) \<Rightarrow>
               if gens = [] \<or> length x_al = 0 then Some (h1, [], Inr result)
               else
                 let futures = map (submit cycle_number curvilinear_distance x_al x_ac) gens;
                     results = map (\<lambda>i. compute dask i (futures ! i)) [0..<length futures]
                 in (case drain_store h1 result (as_completed (completion dask) results) of
                       (h2, None) \<Rightarrow> Some (h2, futures, Inr result)
                     | (h2, Some e) \<Rightarrow> Some (h2, futures, Inl e))))"

subsection \<open>Example data\<close>

text \<open>
  A spectrum, a reader that knows one file, settings, an object with two active models and
  two facilities: one where every unit returns a single field named after its class, one
  where the second unit raises.
\<close>

definition example_spectrum :: spectrum where
  "example_spectrum =
     \<lparr>dilationPSD = [1], rollPSD = [2], phasePSD = [3], timingPSD = [4], spatial_frequency = [5]\<rparr>"

definition example_reader :: "string \<Rightarrow> real \<Rightarrow> real \<Rightarrow> error + spectrum" where
  "example_reader path d l =
     (if path = ''spectrum.nc'' then Inr example_spectrum else Inl (External ''no such file''))"

definition example_parameters :: "string option \<Rightarrow> string list \<Rightarrow> parameters" where
  "example_parameters source names =
     \<lparr>error_spectrum = source, delta_al = 2, len_repeat = 20000, noise = names\<rparr>"

definition example_self :: Generator where
  "example_self =
     \<lparr>generators = [Altimeter (example_parameters (Some ''spectrum.nc'') [''Altimeter'', ''Karin'']),
                    Karin (example_parameters (Some ''spectrum.nc'') [''Altimeter'', ''Karin''])]\<rparr>"

definition example_compute :: "nat \<Rightarrow> task \<Rightarrow> error + (string \<rightharpoonup> nat)" where
  "example_compute i t = (case t of Task m args \<Rightarrow> Inr [class_name m \<mapsto> i + length args])"

definition failing_compute :: "nat \<Rightarrow> task \<Rightarrow> error + (string \<rightharpoonup> nat)" where
  "failing_compute i t = (if i = 1 then Inl (External ''worker failed'') else example_compute i t)"

text \<open>A store with the example object at address 1 and its list at address 0.\<close>

definition example_store :: "nat store" where
  "example_store = [ModelList (generators example_self), Instance 0]"

section \<open>Auxiliary facts\<close>

lemma instantiate_known:
  "item \<in> set class_names \<Longrightarrow> \<exists>m. instantiate params es item = Inr m \<and> class_name m = item"
  by (auto simp: class_names_def instantiate_def)

lemma instantiate_unknown:
  "item \<notin> set class_names \<Longrightarrow>
   instantiate params es item = Inl (ValueError (''unknown error generation class: '' @ item))"
  by (simp add: class_names_def instantiate_def)

lemma instantiate_Inr_class_name:
  "instantiate params es item = Inr m \<Longrightarrow> class_name m = item \<and> item \<in> set class_names"
  by (auto simp: class_names_def instantiate_def split: if_splits)

lemma build_unknown:
  "find (\<lambda>item. item \<notin> set class_names) items = Some bad \<Longrightarrow>
   build params es gens items = Inl (ValueError (''unknown error generation class: '' @ bad))"
proof (induction items arbitrary: gens)
  case Nil
  then show ?case by simp
next
  case (Cons item items)
  show ?case
  proof (cases "item \<in> set class_names")
    case True
    then obtain m where "instantiate params es item = Inr m"
      using instantiate_known by blast
    moreover from True Cons.prems
    have "find (\<lambda>item. item \<notin> set class_names) items = Some bad" by simp
    ultimately show ?thesis using Cons.IH by simp
  next
    case False
    with Cons.prems have "bad = item" by simp
    with False show ?thesis by (simp add: instantiate_unknown)
  qed
qed

lemma build_known:
  "set items \<subseteq> set class_names \<Longrightarrow>
   \<exists>ms. build params es gens items = Inr (gens @ ms) \<and> length ms = length items \<and>
        (\<forall>i<length items. instantiate params es (items ! i) = Inr (ms ! i))"
proof (induction items arbitrary: gens)
  case Nil
  then show ?case by simp
next
  case (Cons item items)
  from Cons.prems obtain m where m: "instantiate params es item = Inr m"
    using instantiate_known by fastforce
  from Cons.prems have "set items \<subseteq> set class_names" by simp
  from Cons.IH [OF this, of "gens @ [m]"] obtain ms where
    ms: "build params es (gens @ [m]) items = Inr ((gens @ [m]) @ ms)"
      "length ms = length items"
      "\<forall>i<length items. instantiate params es (items ! i) = Inr (ms ! i)"
    by blast
  have "\<forall>i<length (item # items). instantiate params es ((item # items) ! i) = Inr ((m # ms) ! i)"
    using m ms(3) by (auto simp: nth_Cons split: nat.splits)
  with m ms(1,2) show ?case
    by (intro exI [of _ "m # ms"]) simp
qed

lemma build_Inr_known:
  assumes "build params es gens items = Inr out"
  shows "set items \<subseteq> set class_names"
proof (rule ccontr)
  assume "\<not> set items \<subseteq> set class_names"
  then obtain bad where "find (\<lambda>item. item \<notin> set class_names) items = Some bad"
    by (cases "find (\<lambda>item. item \<notin> set class_names) items") (auto simp: find_None_iff)
  from build_unknown [OF this] assms show False by simp
qed


lemma as_completed_upt:
  assumes "completion_order n order"
  shows "as_completed order (map f [0..<n]) = map f order"
proof -
  from assms have "set order = set [0..<n]"
    unfolding completion_order_def by (rule mset_eq_setD)
  then have "\<forall>i\<in>set order. i < n" by simp
  then show ?thesis by (simp add: as_completed_def)
qed

lemma completion_order_set: "completion_order n order \<Longrightarrow> set order = {0..<n}"
  unfolding completion_order_def by (drule mset_eq_setD) simp

lemma drain_map_Inr: "drain result (map Inr ms) = Inr (foldl (++) result ms)"
  by (induction ms arbitrary: result) simp_all

lemma drain_Inl:
  "Inl e \<in> set futures \<Longrightarrow> \<exists>e'. Inl e' \<in> set futures \<and> drain result futures = Inl e'"
proof (induction futures arbitrary: result)
  case Nil
  then show ?case by simp
next
  case (Cons f futures)
  show ?case
  proof (cases f)
    case (Inl e0)
    then show ?thesis by auto
  next
    case (Inr m)
    with Cons.prems have "Inl e \<in> set futures" by auto
    from Cons.IH [OF this, of "result ++ m"] Inr show ?thesis by auto
  qed
qed

lemma merge_dom: "dom (foldl (++) result ms) = dom result \<union> (\<Union>m\<in>set ms. dom m)"
  by (induction ms arbitrary: result) auto

lemma merge_Some:
  "foldl (++) result ms k = Some v \<Longrightarrow> result k = Some v \<or> (\<exists>m\<in>set ms. m k = Some v)"
proof (induction ms arbitrary: result)
  case Nil
  then show ?case by simp
next
  case (Cons m ms)
  from Cons.IH [of "result ++ m"] Cons.prems
  have "(result ++ m) k = Some v \<or> (\<exists>m\<in>set ms. m k = Some v)" by simp
  then show ?case by (auto simp: map_add_Some_iff)
qed

lemma merge_None: "\<forall>m\<in>set ms. m k = None \<Longrightarrow> foldl (++) result ms k = result k"
  by (induction ms arbitrary: result) (simp_all add: map_add_def)

lemma merge_last_wins:
  assumes "m k = Some v" and "\<forall>m'\<in>set ms2. m' k = None"
  shows "foldl (++) result (ms1 @ m # ms2) k = Some v"
proof -
  have "foldl (++) result (ms1 @ m # ms2) k = (foldl (++) result ms1 ++ m) k"
    using assms(2) by (simp add: merge_None)
  with assms(1) show ?thesis by simp
qed

text \<open>Two mappings of the list never give different values to one key.\<close>

lemma merge_agree:
  assumes "\<forall>m\<in>set ms. \<forall>m'\<in>set ms. \<forall>v v'. m k = Some v \<longrightarrow> m' k = Some v' \<longrightarrow> v = v'"
    and "m \<in> set ms" and "m k = Some v"
  shows "foldl (++) result ms k = Some v"
proof -
  have "k \<in> dom (foldl (++) result ms)"
    using assms(2,3) by (auto simp: merge_dom)
  then obtain v' where v': "foldl (++) result ms k = Some v'" by blast
  from assms(2) obtain ms1 ms2 where split: "ms = ms1 @ m # ms2"
    by (auto simp: in_set_conv_decomp)
  show ?thesis
  proof (cases "\<forall>m'\<in>set ms2. m' k = None")
    case True
    have "foldl (++) result (ms1 @ m # ms2) k = Some v"
      using assms(3) True by (rule merge_last_wins)
    with split show ?thesis by simp
  next
    case False
    then obtain m' w where m': "m' \<in> set ms2" "m' k = Some w" by auto
    have "foldl (++) result ms k = foldl (++) (foldl (++) result (ms1 @ [m])) ms2 k"
      using split by simp
    with v' have "foldl (++) (foldl (++) result (ms1 @ [m])) ms2 k = Some v'" by simp
    from merge_Some [OF this] have "v' = v"
    proof
      assume "foldl (++) result (ms1 @ [m]) k = Some v'"
      with assms(3) show ?thesis by simp
    next
      assume "\<exists>m\<in>set ms2. m k = Some v'"
      then obtain m'' where "m'' \<in> set ms2" "m'' k = Some v'" by blast
      with assms(1,2,3) split show ?thesis by auto
    qed
    with v' show ?thesis by simp
  qed
qed

lemma merge_agree_eq:
  assumes "\<forall>m\<in>set ms. \<forall>m'\<in>set ms. \<forall>k v v'. m k = Some v \<longrightarrow> m' k = Some v' \<longrightarrow> v = v'"
    and "set ms' = set ms"
  shows "foldl (++) Map.empty ms' = foldl (++) Map.empty ms"
proof (rule ext)
  fix k
  show "foldl (++) Map.empty ms' k = foldl (++) Map.empty ms k"
  proof (cases "foldl (++) Map.empty ms k")
    case None
    then have "k \<notin> dom (foldl (++) Map.empty ms)" by blast
    then have "k \<notin> dom (foldl (++) Map.empty ms')"
      using assms(2) by (simp add: merge_dom)
    with None show ?thesis by auto
  next
    case (Some v)
    from merge_Some [OF this] obtain m where m: "m \<in> set ms" "m k = Some v" by auto
    have "\<forall>m\<in>set ms'. \<forall>m'\<in>set ms'. \<forall>v v'. m k = Some v \<longrightarrow> m' k = Some v' \<longrightarrow> v = v'"
      using assms by blast
    from merge_agree [OF this, of m v Map.empty] m assms(2) Some show ?thesis by simp
  qed
qed

lemma generate_fast:
  "generators self = [] \<or> length x_al = 0 \<Longrightarrow>
   generate dask self cn cd x_al x_ac =
     \<lparr>self_after = self, submitted = [], returned = Inr Map.empty\<rparr>"
  by (simp add: generate_def)

lemma generate_submitted:
  "generators self \<noteq> [] \<Longrightarrow> x_al \<noteq> [] \<Longrightarrow>
   submitted (generate dask self cn cd x_al x_ac) = map (submit cn cd x_al x_ac) (generators self)"
  by (simp add: generate_def Let_def)

lemma generate_returned:
  assumes "x_al \<noteq> []"
    and "completion_order (length (generators self)) (completion dask)"
  shows "returned (generate dask self cn cd x_al x_ac) =
         drain Map.empty (map (future_result dask self cn cd x_al x_ac) (completion dask))"
proof (cases "generators self = []")
  case True
  with assms(2) have "completion dask = []"
    by (simp add: completion_order_def)
  with True show ?thesis by (simp add: generate_fast)
next
  case False
  let ?futures = "map (submit cn cd x_al x_ac) (generators self)"
  let ?f = "\<lambda>i. compute dask i (?futures ! i)"
  have order: "completion_order (length ?futures) (completion dask)"
    using assms(2) by simp
  have "\<forall>i\<in>set (completion dask). i < length (generators self)"
    using completion_order_set [OF assms(2)] by simp
  then have "map ?f (completion dask) = map (future_result dask self cn cd x_al x_ac) (completion dask)"
    by (simp add: future_result_def)
  with as_completed_upt [OF order, of ?f] False assms(1) show ?thesis
    by (simp add: generate_def Let_def)
qed

lemma generate_all_Inr:
  assumes "x_al \<noteq> []"
    and "completion_order (length (generators self)) (completion dask)"
    and "\<forall>i<length (generators self). future_result dask self cn cd x_al x_ac i = Inr (outs i)"
  shows "returned (generate dask self cn cd x_al x_ac) =
         Inr (foldl (++) Map.empty (map outs (completion dask)))"
proof -
  have "\<forall>i\<in>set (completion dask). i < length (generators self)"
    using completion_order_set [OF assms(2)] by simp
  with assms(3)
  have "map (future_result dask self cn cd x_al x_ac) (completion dask) =
        map Inr (map outs (completion dask))"
    by simp
  with generate_returned [OF assms(1,2), of cn cd x_ac] show ?thesis
    by (simp only: drain_map_Inr)
qed

lemma drain_Inr_all:
  "drain result futures = Inr r \<Longrightarrow> \<forall>f\<in>set futures. \<exists>m. f = Inr m"
proof (rule ccontr)
  assume d: "drain result futures = Inr r" and "\<not> (\<forall>f\<in>set futures. \<exists>m. f = Inr m)"
  then obtain e where "Inl e \<in> set futures"
    by (metis sum.exhaust)
  from drain_Inl [OF this, of result] d show False by auto
qed

lemma build_class_names:
  "build params es gens items = Inr out \<Longrightarrow> map class_name out = map class_name gens @ items"
proof (induction items arbitrary: gens)
  case Nil
  then show ?case by simp
next
  case (Cons item items)
  from Cons.prems obtain m where m: "instantiate params es item = Inr m"
    by (cases "instantiate params es item") auto
  with Cons.prems have "build params es (gens @ [m]) items = Inr out" by simp
  from Cons.IH [OF this] instantiate_Inr_class_name [OF m] show ?case by simp
qed

lemma Generator_init_succeeds_iff:
  "(\<exists>g. snd (Generator_init read_file_instr params) = Inr g) \<longleftrightarrow>
   (\<exists>path es. error_spectrum params = Some path \<and>
      read_file_instr path (delta_al params) (len_repeat params) = Inr es) \<and>
   set (noise params) \<subseteq> set class_names"
proof
  assume "\<exists>g. snd (Generator_init read_file_instr params) = Inr g"
  then obtain g where g: "snd (Generator_init read_file_instr params) = Inr g" ..
  then obtain path es gens where
    "error_spectrum params = Some path"
    "read_file_instr path (delta_al params) (len_repeat params) = Inr es"
    "build params es [] (noise params) = Inr gens"
    by (auto simp: Generator_init_def load_spectrum_def split: option.splits sum.splits)
  then show "(\<exists>path es. error_spectrum params = Some path \<and>
      read_file_instr path (delta_al params) (len_repeat params) = Inr es) \<and>
   set (noise params) \<subseteq> set class_names"
    using build_Inr_known by blast
next
  assume r: "(\<exists>path es. error_spectrum params = Some path \<and>
      read_file_instr path (delta_al params) (len_repeat params) = Inr es) \<and>
   set (noise params) \<subseteq> set class_names"
  then obtain path es where
    pe: "error_spectrum params = Some path"
      "read_file_instr path (delta_al params) (len_repeat params) = Inr es"
    by blast
  from r have "set (noise params) \<subseteq> set class_names" by blast
  from build_known [OF this, of params es "[]"] obtain ms where
    "build params es [] (noise params) = Inr ms" by auto
  with pe show "\<exists>g. snd (Generator_init read_file_instr params) = Inr g"
    by (simp add: Generator_init_def load_spectrum_def)
qed

lemma Generator_init_class_names:
  assumes "snd (Generator_init read_file_instr params) = Inr g"
  shows "map class_name (generators g) = noise params"
proof -
  from assms obtain es gens where
    "build params es [] (noise params) = Inr gens" "g = \<lparr>generators = gens\<rparr>"
    by (auto simp: Generator_init_def load_spectrum_def split: option.splits sum.splits)
  with build_class_names [of params es "[]" "noise params" gens] show ?thesis by simp
qed

lemma future_result_completion [simp]:
  "future_result (dask\<lparr>completion := order\<rparr>) = future_result dask"
  by (simp add: future_result_def fun_eq_iff)

lemma set_map_completion:
  "completion_order n order \<Longrightarrow> set (map outs order) = outs ` {..<n}"
  by (simp add: completion_order_set atLeast0LessThan)

lemma disjoint_agree:
  assumes "\<forall>i<n. \<forall>j<n. i \<noteq> j \<longrightarrow> dom (outs i) \<inter> dom (outs j) = {}"
  shows "\<forall>m\<in>outs ` {..<n}. \<forall>m'\<in>outs ` {..<n}. \<forall>k v v'.
           m k = Some v \<longrightarrow> m' k = Some v' \<longrightarrow> v = v'"
proof (intro ballI allI impI)
  fix m m' k v v'
  assume "m \<in> outs ` {..<n}" "m' \<in> outs ` {..<n}" and kv: "m k = Some v" "m' k = Some v'"
  then obtain i j where ij: "i < n" "j < n" "m = outs i" "m' = outs j" by auto
  show "v = v'"
  proof (cases "i = j")
    case True
    with ij kv show ?thesis by simp
  next
    case False
    with assms ij have "dom m \<inter> dom m' = {}" by simp
    with kv show ?thesis by blast
  qed
qed

lemma generate_Inr_iff:
  assumes "x_al \<noteq> []"
    and "completion_order (length (generators self)) (completion dask)"
  shows "(\<exists>r. returned (generate dask self cn cd x_al x_ac) = Inr r) \<longleftrightarrow>
         (\<forall>i<length (generators self). \<exists>m. future_result dask self cn cd x_al x_ac i = Inr m)"
proof
  let ?fr = "future_result dask self cn cd x_al x_ac"
  assume "\<exists>r. returned (generate dask self cn cd x_al x_ac) = Inr r"
  then obtain r where "drain Map.empty (map ?fr (completion dask)) = Inr r"
    using generate_returned [OF assms] by auto
  from drain_Inr_all [OF this] completion_order_set [OF assms(2)]
  show "\<forall>i<length (generators self). \<exists>m. ?fr i = Inr m" by simp
next
  let ?fr = "future_result dask self cn cd x_al x_ac"
  assume "\<forall>i<length (generators self). \<exists>m. ?fr i = Inr m"
  then have "\<exists>outs. \<forall>i<length (generators self). ?fr i = Inr (outs i)"
    by metis
  then obtain outs where "\<forall>i<length (generators self). ?fr i = Inr (outs i)" ..
  from generate_all_Inr [OF assms this]
  show "\<exists>r. returned (generate dask self cn cd x_al x_ac) = Inr r" by blast
qed

lemma update_length [simp]: "length (update h r m) = length h"
  by (simp add: update_def split: obj.splits)

lemma update_other: "b \<noteq> r \<Longrightarrow> update h r m ! b = h ! b"
  by (simp add: update_def split: obj.splits)

lemma update_Dict:
  "r < length h \<Longrightarrow> h ! r = Dict d \<Longrightarrow> update h r m ! r = Dict (d ++ m)"
  by (simp add: update_def)

lemma drain_store_frame:
  "drain_store h r futures = (h', oe) \<Longrightarrow>
   length h' = length h \<and> (\<forall>b. b \<noteq> r \<longrightarrow> h' ! b = h ! b)"
proof (induction h r futures rule: drain_store.induct)
  case (1 h r)
  then show ?case by simp
next
  case (2 h r e futures)
  then show ?case by simp
next
  case (3 h r m futures)
  then show ?case by (simp add: update_other)
qed

lemma drain_store_drain:
  "r < length h \<Longrightarrow> h ! r = Dict d \<Longrightarrow> drain_store h r futures = (h', oe) \<Longrightarrow>
   (case drain d futures of
      Inl e \<Rightarrow> oe = Some e
    | Inr d' \<Rightarrow> oe = None \<and> h' ! r = Dict d')"
proof (induction h r futures arbitrary: d rule: drain_store.induct)
  case (1 h r)
  then show ?case by simp
next
  case (2 h r e futures)
  then show ?case by simp
next
  case (3 h r m futures)
  from "3.prems"(1,2) have "r < length (update h r m)" "update h r m ! r = Dict (d ++ m)"
    by (simp_all add: update_Dict)
  from "3.IH" [OF this] "3.prems"(3) show ?case by simp
qed

lemma self_generators_extend:
  assumes "self_generators h self = Some gens"
    and "take (length h) h' = h"
  shows "self_generators h' self = Some gens"
proof -
  have le: "length h \<le> length h'"
    by (metis assms(2) length_take min.cobounded2 min.commute)
  have nth: "h' ! b = h ! b" if "b < length h" for b
    using that assms(2) by (metis nth_take)
  from assms(1) obtain l where
    l: "self < length h" "h ! self = Instance l" "l < length h" "h ! l = ModelList gens"
    by (auto simp: self_generators_def split: if_splits obj.splits)
  with le nth show ?thesis
    by (simp add: self_generators_def)
qed

lemma generate_store_call:
  assumes "self_generators h self = Some gens"
  shows "\<exists>h' out.
    generate_store dask h self cn cd x_al x_ac =
      Some (h', submitted (generate dask \<lparr>generators = gens\<rparr> cn cd x_al x_ac), out) \<and>
    length h' = Suc (length h) \<and> take (length h) h' = h \<and>
    (case returned (generate dask \<lparr>generators = gens\<rparr> cn cd x_al x_ac) of
       Inl e \<Rightarrow> out = Inl e
     | Inr d \<Rightarrow> out = Inr (length h) \<and> h' ! length h = Dict d)"
proof (cases "gens = [] \<or> length x_al = 0")
  case True
  with assms show ?thesis
    by (auto simp: generate_store_def allocate_def generate_def)
next
  case False
  let ?futures = "map (submit cn cd x_al x_ac) gens"
  let ?results = "as_completed (completion dask)
      (map (\<lambda>i. compute dask i (?futures ! i)) [0..<length ?futures])"
  let ?h1 = "h @ [Dict Map.empty]"
  obtain h2 oe where d: "drain_store ?h1 (length h) ?results = (h2, oe)"
    by (cases "drain_store ?h1 (length h) ?results")
  from drain_store_frame [OF d]
  have len: "length h2 = Suc (length h)" and other: "\<forall>b. b \<noteq> length h \<longrightarrow> h2 ! b = ?h1 ! b"
    by simp_all
  have pre: "take (length h) h2 = h"
  proof (rule nth_equalityI)
    show "length (take (length h) h2) = length h" using len by simp
    fix b assume "b < length (take (length h) h2)"
    then have b: "b < length h" by simp
    with other have "h2 ! b = ?h1 ! b" by simp
    with b show "take (length h) h2 ! b = h ! b" by (simp add: nth_append)
  qed
  have ret: "returned (generate dask \<lparr>generators = gens\<rparr> cn cd x_al x_ac) =
      drain Map.empty ?results"
    and sub: "submitted (generate dask \<lparr>generators = gens\<rparr> cn cd x_al x_ac) = ?futures"
    using False by (simp_all add: generate_def Let_def)
  have "length h < length ?h1" "?h1 ! length h = Dict Map.empty" by simp_all
  from drain_store_drain [OF this d]
  have out: "case drain Map.empty ?results of
      Inl e \<Rightarrow> oe = Some e | Inr d' \<Rightarrow> oe = None \<and> h2 ! length h = Dict d'" .
  show ?thesis
  proof (cases "drain Map.empty ?results")
    case (Inl e)
    with out have "oe = Some e" by simp
    with assms False d len pre ret sub Inl show ?thesis
      by (simp add: generate_store_def allocate_def Let_def)
  next
    case (Inr d')
    with out have "oe = None" "h2 ! length h = Dict d'" by simp_all
    with assms False d len pre ret sub Inr show ?thesis
      by (simp add: generate_store_def allocate_def Let_def)
  qed
qed

lemma generate_store_out:
  assumes "case returned c of Inl e \<Rightarrow> out = Inl e | Inr d \<Rightarrow> out = Inr n \<and> h' ! n = Dict d"
  shows "(\<forall>e. out = Inl e \<longleftrightarrow> returned c = Inl e) \<and>
         (\<forall>r. out = Inr r \<longrightarrow> r = n \<and> (\<exists>d. h' ! r = Dict d \<and> returned c = Inr d))"
  using assms by (cases "returned c") auto

section \<open>The specification, claim by claim\<close>

text \<open>
  Claim C1. When the method has submitted its units (the along-track array is not empty),
  the facility yields every future once, and the computation of some active model raises,
  then the call raises: what the caller gets is the exception of one of the failing units,
  and no mapping at all, whatever had been merged before that future was reached.
\<close>

theorem generate_failure_is_total:
  assumes "x_al \<noteq> []"
    and "completion_order (length (generators self)) (completion dask)"
    and "i < length (generators self)"
    and "future_result dask self cycle_number curvilinear_distance x_al x_ac i = Inl e"
  shows "\<exists>j e'. j < length (generators self) \<and>
           future_result dask self cycle_number curvilinear_distance x_al x_ac j = Inl e' \<and>
           returned (generate dask self cycle_number curvilinear_distance x_al x_ac) = Inl e'"
proof -
  let ?fr = "future_result dask self cycle_number curvilinear_distance x_al x_ac"
  have set_order: "set (completion dask) = {0..<length (generators self)}"
    using assms(2) by (rule completion_order_set)
  with assms(3,4) have "Inl e \<in> set (map ?fr (completion dask))"
    by (metis atLeastLessThan_iff image_eqI list.set_map zero_le)
  from drain_Inl [OF this, of Map.empty] obtain e' where
    e': "Inl e' \<in> set (map ?fr (completion dask))"
        "drain Map.empty (map ?fr (completion dask)) = Inl e'"
    by blast
  from e'(1) set_order obtain j where "j < length (generators self)" "?fr j = Inl e'"
    by auto
  moreover have "returned (generate dask self cycle_number curvilinear_distance x_al x_ac) = Inl e'"
    using generate_returned [OF assms(1,2)] e'(2) by simp
  ultimately show ?thesis by blast
qed

theorem generate_failure_is_total_witness:
  "returned (generate \<lparr>compute = failing_compute, completion = [0, 1]\<rparr> example_self
      1 1000 [0, 1, 2] [-10, 0, 10]) = Inl (External ''worker failed'')"
proof -
  let ?dask = "\<lparr>compute = failing_compute, completion = [0, 1]\<rparr>"
  have h1: "[0, 1, 2 :: real] \<noteq> []" by simp
  have h2: "completion_order (length (generators example_self)) (completion ?dask)"
    by (simp add: example_self_def completion_order_def)
  have h3: "1 < length (generators example_self)"
    by (simp add: example_self_def)
  have h4: "future_result ?dask example_self 1 1000 [0, 1, 2] [-10, 0, 10] 1 =
            Inl (External ''worker failed'')"
    by (simp add: future_result_def failing_compute_def)
  from generate_failure_is_total [OF h1 h2 h3 h4] obtain j e' where
    "future_result ?dask example_self 1 1000 [0, 1, 2] [-10, 0, 10] j = Inl e'"
    "returned (generate ?dask example_self 1 1000 [0, 1, 2] [-10, 0, 10]) = Inl e'"
    by blast
  then show ?thesis
    by (simp add: future_result_def failing_compute_def example_compute_def
        split: if_splits task.splits)
qed

text \<open>
  Claim C2, as amended. A noise list with a name that is none of the six class names never
  yields an object: the constructor raises. When the calibration source is set and the
  reader returns, the exception is the \<^verbatim>\<open>ValueError\<close> of the loop's last branch, and
  its message ends with the first such name of the list. (Without a source the
  \<^verbatim>\<open>assert\<close> raises first, and a failing reader raises its own exception first.)
\<close>

theorem Generator_init_unknown_name:
  assumes "find (\<lambda>item. item \<notin> set class_names) (noise params) = Some bad"
  shows "(\<exists>e. snd (Generator_init read_file_instr params) = Inl e) \<and>
         (\<forall>path es. error_spectrum params = Some path \<and>
            read_file_instr path (delta_al params) (len_repeat params) = Inr es \<longrightarrow>
            snd (Generator_init read_file_instr params) =
              Inl (ValueError (''unknown error generation class: '' @ bad)))"
proof -
  have loop: "build params es [] (noise params) =
              Inl (ValueError (''unknown error generation class: '' @ bad))" for es
    using assms by (rule build_unknown)
  show ?thesis
    by (auto simp: Generator_init_def load_spectrum_def loop split: option.splits sum.splits)
qed

theorem Generator_init_unknown_name_witness:
  "snd (Generator_init example_reader
          (example_parameters (Some ''spectrum.nc'') [''Karin'', ''Bogus'', ''Timing'', ''Other''])) =
     Inl (ValueError ''unknown error generation class: Bogus'')"
proof -
  let ?p = "example_parameters (Some ''spectrum.nc'') [''Karin'', ''Bogus'', ''Timing'', ''Other'']"
  have h1: "find (\<lambda>item. item \<notin> set class_names) (noise ?p) = Some ''Bogus''"
    by (simp add: example_parameters_def class_names_def)
  have h2: "error_spectrum ?p = Some ''spectrum.nc'' \<and>
            example_reader ''spectrum.nc'' (delta_al ?p) (len_repeat ?p) = Inr example_spectrum"
    by (simp add: example_parameters_def example_reader_def)
  from Generator_init_unknown_name [OF h1, of example_reader] h2 show ?thesis
    by simp
qed

text \<open>
  Claim C2 as it was stated (an unknown name always ends in the unknown-name error) fails
  for settings without a calibration source: the list names only \<^verbatim>\<open>Bogus\<close>, and the
  constructor raises \<^verbatim>\<open>AssertionError\<close>.
\<close>

theorem Generator_init_unknown_name_counterexample:
  "snd (Generator_init example_reader (example_parameters None [''Bogus''])) = Inl AssertionError \<and>
   snd (Generator_init example_reader (example_parameters None [''Bogus''])) \<noteq>
     Inl (ValueError (''unknown error generation class: '' @ ''Bogus''))"
  by (simp add: Generator_init_def load_spectrum_def example_parameters_def)

text \<open>
  Claim C3. With no active model, or with an along-track array of length zero, the method
  returns the empty mapping and has submitted nothing.
\<close>

theorem generate_degenerate:
  assumes "generators self = [] \<or> length x_al = 0"
  shows "returned (generate dask self cycle_number curvilinear_distance x_al x_ac) = Inr Map.empty \<and>
         submitted (generate dask self cycle_number curvilinear_distance x_al x_ac) = []"
  using assms by (simp add: generate_fast)

theorem generate_degenerate_witness:
  "returned (generate \<lparr>compute = example_compute, completion = [0, 1]\<rparr> example_self
      1 1000 [] [-10, 0, 10]) = Inr Map.empty \<and>
   submitted (generate \<lparr>compute = example_compute, completion = [0, 1]\<rparr> example_self
      1 1000 [] [-10, 0, 10]) = [] \<and>
   returned (generate \<lparr>compute = example_compute, completion = []\<rparr> \<lparr>generators = []\<rparr>
      1 1000 [0, 1, 2] [-10, 0, 10]) = Inr Map.empty"
proof -
  have h1: "generators example_self = [] \<or> length ([] :: real list) = 0" by simp
  have h2: "generators \<lparr>generators = []\<rparr> = [] \<or> length [0, 1, 2 :: real] = 0" by simp
  from generate_degenerate [OF h1] generate_degenerate [OF h2] show ?thesis by blast
qed

text \<open>
  Claim C4. Otherwise the method submits one unit per active model, in the order of the
  list, each unit being the \<^verbatim>\<open>generate\<close> of that model with the arguments of its class:
  the along-track array alone for Altimeter; along-track, across-track, curvilinear
  distance and cycle number for Karin; along-track and across-track for BaselineDilation,
  RollPhase, Timing and WetTroposphere.
\<close>

theorem generate_submissions:
  assumes "generators self \<noteq> []" and "x_al \<noteq> []"
  shows "length (submitted (generate dask self cycle_number curvilinear_distance x_al x_ac)) =
           length (generators self) \<and>
         (\<forall>i<length (generators self). \<exists>args.
            submitted (generate dask self cycle_number curvilinear_distance x_al x_ac) ! i =
              Task (generators self ! i) args \<and>
            (class_name (generators self ! i) = ''Altimeter'' \<longrightarrow> args = [Array x_al]) \<and>
            (class_name (generators self ! i) = ''Karin'' \<longrightarrow>
               args = [Array x_al, Array x_ac, Float curvilinear_distance, Integer cycle_number]) \<and>
            (class_name (generators self ! i) \<in>
               {''BaselineDilation'', ''RollPhase'', ''Timing'', ''WetTroposphere''} \<longrightarrow>
               args = [Array x_al, Array x_ac]))"
proof -
  have one: "\<exists>args. submit cycle_number curvilinear_distance x_al x_ac g = Task g args \<and>
            (class_name g = ''Altimeter'' \<longrightarrow> args = [Array x_al]) \<and>
            (class_name g = ''Karin'' \<longrightarrow>
               args = [Array x_al, Array x_ac, Float curvilinear_distance, Integer cycle_number]) \<and>
            (class_name g \<in> {''BaselineDilation'', ''RollPhase'', ''Timing'', ''WetTroposphere''} \<longrightarrow>
               args = [Array x_al, Array x_ac])" for g
    by (cases g) simp_all
  show ?thesis
    using generate_submitted [OF assms, of dask cycle_number curvilinear_distance x_ac] one
    by simp
qed

theorem generate_submissions_witness:
  "submitted (generate \<lparr>compute = example_compute, completion = [1, 0]\<rparr> example_self
      1 1000 [0, 1, 2] [-10, 0, 10]) =
   [Task (generators example_self ! 0) [Array [0, 1, 2]],
    Task (generators example_self ! 1) [Array [0, 1, 2], Array [-10, 0, 10], Float 1000, Integer 1]]"
proof -
  let ?dask = "\<lparr>compute = example_compute, completion = [1, 0]\<rparr>"
  let ?sub = "submitted (generate ?dask example_self 1 1000 [0, 1, 2] [-10, 0, 10])"
  have h1: "generators example_self \<noteq> []" by (simp add: example_self_def)
  have h2: "[0, 1, 2 :: real] \<noteq> []" by simp
  note sub = generate_submissions [OF h1 h2, of ?dask 1 1000 "[-10, 0, 10]"]
  from sub have len: "length ?sub = length (generators example_self)" by blast
  from sub have each: "i < length (generators example_self) \<Longrightarrow>
      \<exists>args. ?sub ! i = Task (generators example_self ! i) args \<and>
        (class_name (generators example_self ! i) = ''Altimeter'' \<longrightarrow> args = [Array [0, 1, 2]]) \<and>
        (class_name (generators example_self ! i) = ''Karin'' \<longrightarrow>
           args = [Array [0, 1, 2], Array [-10, 0, 10], Float 1000, Integer 1])" for i
    by blast
  from each [of 0] have a: "?sub ! 0 = Task (generators example_self ! 0) [Array [0, 1, 2]]"
    by (auto simp: example_self_def)
  from each [of 1] have b: "?sub ! 1 = Task (generators example_self ! 1)
      [Array [0, 1, 2], Array [-10, 0, 10], Float 1000, Integer 1]"
    by (auto simp: example_self_def)
  from len have "length ?sub = 2" by (simp add: example_self_def)
  with a b show ?thesis
    by (auto simp: list_eq_iff_nth_eq less_Suc_eq numeral_2_eq_2)
qed

text \<open>
  Claim C5, as amended. Let the calibration source be set, let the constructor have read
  the spectrum \<open>es\<close> from it, and let every name of the noise list be one of the six class
  names. Then the constructor
  returns an object whose list has one instance per name, in the order of the names, and
  the instance for a name was built from the settings and exactly these channels of \<open>es\<close>:
  dilationPSD and spatial\_frequency for BaselineDilation; rollPSD, phasePSD and
  spatial\_frequency for RollPhase; timingPSD and spatial\_frequency for Timing; none for
  Altimeter, Karin and WetTroposphere. The names need not be distinct.
\<close>

theorem Generator_init_instances:
  assumes "error_spectrum params = Some path"
    and "read_file_instr path (delta_al params) (len_repeat params) = Inr es"
    and "set (noise params) \<subseteq> set class_names"
  shows "\<exists>g. snd (Generator_init read_file_instr params) = Inr g \<and>
           length (generators g) = length (noise params) \<and>
           (\<forall>i<length (noise params).
              (noise params ! i = ''Altimeter'' \<longrightarrow> generators g ! i = Altimeter params) \<and>
              (noise params ! i = ''BaselineDilation'' \<longrightarrow>
                 generators g ! i = BaselineDilation params (dilationPSD es) (spatial_frequency es)) \<and>
              (noise params ! i = ''Karin'' \<longrightarrow> generators g ! i = Karin params) \<and>
              (noise params ! i = ''RollPhase'' \<longrightarrow>
                 generators g ! i =
                   RollPhase params (rollPSD es) (phasePSD es) (spatial_frequency es)) \<and>
              (noise params ! i = ''Timing'' \<longrightarrow>
                 generators g ! i = Timing params (timingPSD es) (spatial_frequency es)) \<and>
              (noise params ! i = ''WetTroposphere'' \<longrightarrow> generators g ! i = WetTroposphere params))"
proof -
  from build_known [OF assms(3), of params es "[]"] obtain ms where
    ms: "build params es [] (noise params) = Inr ms" "length ms = length (noise params)"
      "\<forall>i<length (noise params). instantiate params es (noise params ! i) = Inr (ms ! i)"
    by auto
  have init: "snd (Generator_init read_file_instr params) = Inr \<lparr>generators = ms\<rparr>"
    using assms(1,2) ms(1) by (simp add: Generator_init_def load_spectrum_def)
  have "(noise params ! i = ''Altimeter'' \<longrightarrow> ms ! i = Altimeter params) \<and>
        (noise params ! i = ''BaselineDilation'' \<longrightarrow>
           ms ! i = BaselineDilation params (dilationPSD es) (spatial_frequency es)) \<and>
        (noise params ! i = ''Karin'' \<longrightarrow> ms ! i = Karin params) \<and>
        (noise params ! i = ''RollPhase'' \<longrightarrow>
           ms ! i = RollPhase params (rollPSD es) (phasePSD es) (spatial_frequency es)) \<and>
        (noise params ! i = ''Timing'' \<longrightarrow>
           ms ! i = Timing params (timingPSD es) (spatial_frequency es)) \<and>
        (noise params ! i = ''WetTroposphere'' \<longrightarrow> ms ! i = WetTroposphere params)"
    if "i < length (noise params)" for i
  proof -
    from ms(3) that have "instantiate params es (noise params ! i) = Inr (ms ! i)" by blast
    then show ?thesis by (auto simp: instantiate_def)
  qed
  with init ms(2) show ?thesis by simp
qed

theorem Generator_init_instances_witness:
  "snd (Generator_init example_reader
          (example_parameters (Some ''spectrum.nc'') [''Timing'', ''Altimeter'', ''RollPhase''])) =
   Inr \<lparr>generators =
     [Timing (example_parameters (Some ''spectrum.nc'') [''Timing'', ''Altimeter'', ''RollPhase''])
        [4] [5],
      Altimeter (example_parameters (Some ''spectrum.nc'') [''Timing'', ''Altimeter'', ''RollPhase'']),
      RollPhase (example_parameters (Some ''spectrum.nc'') [''Timing'', ''Altimeter'', ''RollPhase''])
        [2] [3] [5]]\<rparr>"
proof -
  let ?p = "example_parameters (Some ''spectrum.nc'') [''Timing'', ''Altimeter'', ''RollPhase'']"
  have h1: "error_spectrum ?p = Some ''spectrum.nc''"
    by (simp add: example_parameters_def)
  have h2: "example_reader ''spectrum.nc'' (delta_al ?p) (len_repeat ?p) = Inr example_spectrum"
    by (simp add: example_reader_def)
  have h3: "set (noise ?p) \<subseteq> set class_names"
    by (simp add: example_parameters_def class_names_def)
  have n: "noise ?p = [''Timing'', ''Altimeter'', ''RollPhase'']"
    by (simp add: example_parameters_def)
  from Generator_init_instances
    [of ?p "''spectrum.nc''" example_reader example_spectrum, OF h1 h2 h3]
  obtain g where
    g: "snd (Generator_init example_reader ?p) = Inr g" "length (generators g) = length (noise ?p)"
    and each: "\<And>i. i < length (noise ?p) \<Longrightarrow>
        (noise ?p ! i = ''Altimeter'' \<longrightarrow> generators g ! i = Altimeter ?p) \<and>
        (noise ?p ! i = ''RollPhase'' \<longrightarrow>
           generators g ! i = RollPhase ?p (rollPSD example_spectrum) (phasePSD example_spectrum)
             (spatial_frequency example_spectrum)) \<and>
        (noise ?p ! i = ''Timing'' \<longrightarrow>
           generators g ! i = Timing ?p (timingPSD example_spectrum)
             (spatial_frequency example_spectrum))"
    by blast
  from each [of 0] have a: "generators g ! 0 = Timing ?p [4] [5]"
    by (simp add: n example_spectrum_def)
  from each [of "Suc 0"] have b: "generators g ! Suc 0 = Altimeter ?p"
    by (simp add: n)
  from each [of "Suc (Suc 0)"] have c: "generators g ! Suc (Suc 0) = RollPhase ?p [2] [3] [5]"
    by (simp add: n example_spectrum_def)
  from g(2) have "length (generators g) = 3" by (simp add: n)
  with a b c have "generators g = [Timing ?p [4] [5], Altimeter ?p, RollPhase ?p [2] [3] [5]]"
    by (auto simp: list_eq_iff_nth_eq less_Suc_eq numeral_3_eq_3)
  then have "g = \<lparr>generators = [Timing ?p [4] [5], Altimeter ?p, RollPhase ?p [2] [3] [5]]\<rparr>"
    by (cases g) simp
  with g(1) show ?thesis by simp
qed

text \<open>
  Claim C5 as it was stated (every configuration that names valid classes yields an
  object) fails for settings without a calibration source: the list names only
  \<^verbatim>\<open>Altimeter\<close>, which takes no channel, and the constructor raises
  \<^verbatim>\<open>AssertionError\<close> instead of returning an object with one instance.
\<close>

theorem Generator_init_instances_counterexample:
  "set (noise (example_parameters None [''Altimeter''])) \<subseteq> set class_names \<and>
   snd (Generator_init example_reader (example_parameters None [''Altimeter''])) =
     Inl AssertionError"
  by (simp add: Generator_init_def load_spectrum_def example_parameters_def class_names_def)

text \<open>
  Claim C6. On the submitting path, with every future yielded once, the method returns a
  mapping exactly when every active model returned one. The mapping returned is then the
  models' mappings merged by \<^verbatim>\<open>update\<close> in completion order; its keys are the union of
  the models' keys, each of its entries is an entry of some model, and when the models'
  key sets are pairwise disjoint it is, as a set of entries, the union of the models'
  mappings.
\<close>

theorem generate_merges_all:
  fixes dask :: "'v facility"
  assumes "x_al \<noteq> []"
    and "completion_order (length (generators self)) (completion dask)"
  shows "((\<exists>r. returned (generate dask self cycle_number curvilinear_distance x_al x_ac) = Inr r) \<longleftrightarrow>
          (\<forall>i<length (generators self). \<exists>m.
             future_result dask self cycle_number curvilinear_distance x_al x_ac i = Inr m)) \<and>
         (\<forall>outs.
            (\<forall>i<length (generators self).
               future_result dask self cycle_number curvilinear_distance x_al x_ac i = Inr (outs i)) \<longrightarrow>
            (\<exists>r. returned (generate dask self cycle_number curvilinear_distance x_al x_ac) = Inr r \<and>
               r = foldl (++) Map.empty (map outs (completion dask)) \<and>
               dom r = (\<Union>i<length (generators self). dom (outs i)) \<and>
               Map.graph r \<subseteq> (\<Union>i<length (generators self). Map.graph (outs i)) \<and>
               ((\<forall>i<length (generators self). \<forall>j<length (generators self).
                   i \<noteq> j \<longrightarrow> dom (outs i) \<inter> dom (outs j) = {}) \<longrightarrow>
                Map.graph r = (\<Union>i<length (generators self). Map.graph (outs i)))))"
proof (intro conjI allI impI)
  show "(\<exists>r. returned (generate dask self cycle_number curvilinear_distance x_al x_ac) = Inr r) \<longleftrightarrow>
        (\<forall>i<length (generators self). \<exists>m.
           future_result dask self cycle_number curvilinear_distance x_al x_ac i = Inr m)"
    using assms by (rule generate_Inr_iff)
next
  fix outs :: "nat \<Rightarrow> string \<rightharpoonup> 'v"
  let ?n = "length (generators self)"
  let ?r = "foldl (++) Map.empty (map outs (completion dask))"
  assume outs: "\<forall>i<?n.
     future_result dask self cycle_number curvilinear_distance x_al x_ac i = Inr (outs i)"
  have ret: "returned (generate dask self cycle_number curvilinear_distance x_al x_ac) = Inr ?r"
    using assms outs by (rule generate_all_Inr)
  have set_outs: "set (map outs (completion dask)) = outs ` {..<?n}"
    using assms(2) by (rule set_map_completion)
  have d: "dom ?r = (\<Union>i<?n. dom (outs i))"
    by (simp only: merge_dom set_outs) simp
  have sub: "Map.graph ?r \<subseteq> (\<Union>i<?n. Map.graph (outs i))"
  proof
    fix kv assume "kv \<in> Map.graph ?r"
    then obtain k v where kv: "kv = (k, v)" "?r k = Some v"
      by (cases kv) (auto dest: in_graphD)
    from merge_Some [OF kv(2)] obtain m where "m \<in> set (map outs (completion dask))" "m k = Some v"
      by auto
    with set_outs kv(1) show "kv \<in> (\<Union>i<?n. Map.graph (outs i))"
      by (auto intro: in_graphI)
  qed
  have eq: "Map.graph ?r = (\<Union>i<?n. Map.graph (outs i))"
    if disj: "\<forall>i<?n. \<forall>j<?n. i \<noteq> j \<longrightarrow> dom (outs i) \<inter> dom (outs j) = {}"
  proof
    show "Map.graph ?r \<subseteq> (\<Union>i<?n. Map.graph (outs i))" by (rule sub)
    show "(\<Union>i<?n. Map.graph (outs i)) \<subseteq> Map.graph ?r"
    proof
      fix kv assume "kv \<in> (\<Union>i<?n. Map.graph (outs i))"
      then obtain i k v where i: "i < ?n" "kv = (k, v)" "outs i k = Some v"
        by (cases kv) (auto dest: in_graphD)
      have agree: "\<forall>m\<in>set (map outs (completion dask)). \<forall>m'\<in>set (map outs (completion dask)).
          \<forall>v v'. m k = Some v \<longrightarrow> m' k = Some v' \<longrightarrow> v = v'"
        using disjoint_agree [OF disj] unfolding set_outs by blast
      have "outs i \<in> set (map outs (completion dask))"
        unfolding set_outs using i(1) by blast
      with agree have "?r k = Some v" using i(3) by (rule merge_agree)
      with i(2) show "kv \<in> Map.graph ?r" by (simp add: in_graphI)
    qed
  qed
  show "\<exists>r. returned (generate dask self cycle_number curvilinear_distance x_al x_ac) = Inr r \<and>
          r = ?r \<and> dom r = (\<Union>i<?n. dom (outs i)) \<and>
          Map.graph r \<subseteq> (\<Union>i<?n. Map.graph (outs i)) \<and>
          ((\<forall>i<?n. \<forall>j<?n. i \<noteq> j \<longrightarrow> dom (outs i) \<inter> dom (outs j) = {}) \<longrightarrow>
           Map.graph r = (\<Union>i<?n. Map.graph (outs i)))"
    using ret d sub eq by blast
qed

theorem generate_merges_all_witness:
  "\<exists>r. returned (generate \<lparr>compute = example_compute, completion = [1, 0]\<rparr> example_self
          1 1000 [0, 1, 2] [-10, 0, 10]) = Inr r \<and>
       dom r = {''Altimeter'', ''Karin''} \<and>
       Map.graph r = {(''Altimeter'', 1), (''Karin'', 5)}"
proof -
  let ?dask = "\<lparr>compute = example_compute, completion = [1, 0]\<rparr>"
  let ?outs = "\<lambda>i::nat. if i = 0 then [''Altimeter'' \<mapsto> 1::nat] else [''Karin'' \<mapsto> 5]"
  have h2: "[0, 1, 2 :: real] \<noteq> []" by simp
  have h3: "completion_order (length (generators example_self)) (completion ?dask)"
    by (simp add: example_self_def completion_order_def)
  have h4: "\<forall>i<length (generators example_self).
      future_result ?dask example_self 1 1000 [0, 1, 2] [-10, 0, 10] i = Inr (?outs i)"
    by (simp add: example_self_def future_result_def example_compute_def less_Suc_eq eval_nat_numeral)
  have h5: "\<forall>i<length (generators example_self). \<forall>j<length (generators example_self).
      i \<noteq> j \<longrightarrow> dom (?outs i) \<inter> dom (?outs j) = {}"
    by (simp add: example_self_def less_Suc_eq)
  from generate_merges_all [OF h2 h3, of 1 1000 "[-10, 0, 10]", THEN conjunct2,
      THEN spec [of _ ?outs], THEN mp, OF h4]
  obtain r where
    r1: "returned (generate ?dask example_self 1 1000 [0, 1, 2] [-10, 0, 10]) = Inr r"
    and r2: "dom r = (\<Union>i<length (generators example_self). dom (?outs i))"
    and r3: "(\<forall>i<length (generators example_self). \<forall>j<length (generators example_self).
          i \<noteq> j \<longrightarrow> dom (?outs i) \<inter> dom (?outs j) = {}) \<longrightarrow>
        Map.graph r = (\<Union>i<length (generators example_self). Map.graph (?outs i))"
    by (elim exE conjE)
  from r3 h5
  have r4: "Map.graph r = (\<Union>i<length (generators example_self). Map.graph (?outs i))"
    by (rule mp)
  have len: "length (generators example_self) = Suc (Suc 0)" by (simp add: example_self_def)
  have "(\<Union>i<Suc (Suc 0). dom (?outs i)) = {''Altimeter'', ''Karin''}"
    by (simp add: lessThan_Suc insert_commute)
  with r2 len have d: "dom r = {''Altimeter'', ''Karin''}" by simp
  have "(\<Union>i<Suc (Suc 0). Map.graph (?outs i)) = {(''Altimeter'', 1), (''Karin'', 5)}"
    by (simp add: lessThan_Suc insert_commute)
  with r4 len have "Map.graph r = {(''Altimeter'', 1), (''Karin'', 5)}" by simp
  with r1 d show ?thesis by blast
qed

text \<open>
  Claim C7. When the key sets of the mappings the models return are pairwise disjoint, the
  completion order does not matter: a mapping returned under one order is the mapping
  returned under any other.
\<close>

theorem generate_order_irrelevant:
  assumes "completion_order (length (generators self)) order"
    and "completion_order (length (generators self)) order'"
    and "\<forall>i<length (generators self). \<forall>j<length (generators self). i \<noteq> j \<longrightarrow>
           (\<forall>m m'. future_result dask self cycle_number curvilinear_distance x_al x_ac i = Inr m \<longrightarrow>
                    future_result dask self cycle_number curvilinear_distance x_al x_ac j = Inr m' \<longrightarrow>
                    dom m \<inter> dom m' = {})"
    and "returned (generate (dask\<lparr>completion := order\<rparr>) self
           cycle_number curvilinear_distance x_al x_ac) = Inr r"
  shows "returned (generate (dask\<lparr>completion := order'\<rparr>) self
           cycle_number curvilinear_distance x_al x_ac) = Inr r"
proof (cases "generators self = [] \<or> length x_al = 0")
  case True
  with assms(4) show ?thesis by (simp add: generate_fast)
next
  case False
  let ?n = "length (generators self)"
  let ?fr = "future_result dask self cycle_number curvilinear_distance x_al x_ac"
  from False have nd: "generators self \<noteq> []" "x_al \<noteq> []" by simp_all
  have o: "completion_order ?n (completion (dask\<lparr>completion := order\<rparr>))"
    and o': "completion_order ?n (completion (dask\<lparr>completion := order'\<rparr>))"
    using assms(1,2) by simp_all
  from generate_Inr_iff [OF nd(2) o, of cycle_number curvilinear_distance x_ac] assms(4)
  have "\<forall>i<?n. \<exists>m. ?fr i = Inr m" by auto
  then have "\<exists>outs. \<forall>i<?n. ?fr i = Inr (outs i)" by metis
  then obtain outs where outs: "\<forall>i<?n. ?fr i = Inr (outs i)" ..
  then have outs1: "\<forall>i<?n. future_result (dask\<lparr>completion := order\<rparr>) self
      cycle_number curvilinear_distance x_al x_ac i = Inr (outs i)"
    and outs2: "\<forall>i<?n. future_result (dask\<lparr>completion := order'\<rparr>) self
      cycle_number curvilinear_distance x_al x_ac i = Inr (outs i)"
    by simp_all
  from generate_all_Inr [OF nd(2) o outs1] assms(4)
  have r: "r = foldl (++) Map.empty (map outs order)" by simp
  from generate_all_Inr [OF nd(2) o' outs2]
  have r': "returned (generate (dask\<lparr>completion := order'\<rparr>) self
      cycle_number curvilinear_distance x_al x_ac) = Inr (foldl (++) Map.empty (map outs order'))"
    by simp
  have disj: "\<forall>i<?n. \<forall>j<?n. i \<noteq> j \<longrightarrow> dom (outs i) \<inter> dom (outs j) = {}"
    using assms(3) outs by blast
  have agree: "\<forall>m\<in>set (map outs order). \<forall>m'\<in>set (map outs order). \<forall>k v v'.
      m k = Some v \<longrightarrow> m' k = Some v' \<longrightarrow> v = v'"
    using disjoint_agree [OF disj] unfolding set_map_completion [OF assms(1)] .
  have "set (map outs order') = set (map outs order)"
    by (simp only: set_map_completion [OF assms(1)] set_map_completion [OF assms(2)])
  with agree have "foldl (++) Map.empty (map outs order') = foldl (++) Map.empty (map outs order)"
    by (rule merge_agree_eq)
  with r r' show ?thesis by simp
qed

theorem generate_order_irrelevant_witness:
  "returned (generate \<lparr>compute = example_compute, completion = [1, 0]\<rparr> example_self
      1 1000 [0, 1, 2] [-10, 0, 10]) = Inr [''Altimeter'' \<mapsto> 1, ''Karin'' \<mapsto> 5]"
proof -
  let ?dask = "\<lparr>compute = example_compute, completion = []\<rparr>"
  have h1: "completion_order (length (generators example_self)) [0, 1]"
    by (simp add: example_self_def completion_order_def)
  have h2: "completion_order (length (generators example_self)) [1, 0]"
    by (simp add: example_self_def completion_order_def)
  have h3: "\<forall>i<length (generators example_self). \<forall>j<length (generators example_self). i \<noteq> j \<longrightarrow>
      (\<forall>m m'. future_result ?dask example_self 1 1000 [0, 1, 2] [-10, 0, 10] i = Inr m \<longrightarrow>
               future_result ?dask example_self 1 1000 [0, 1, 2] [-10, 0, 10] j = Inr m' \<longrightarrow>
               dom m \<inter> dom m' = {})"
    by (auto simp: example_self_def future_result_def example_compute_def less_Suc_eq)
  have h4: "returned (generate (?dask\<lparr>completion := [0, 1]\<rparr>) example_self
      1 1000 [0, 1, 2] [-10, 0, 10]) = Inr [''Altimeter'' \<mapsto> 1, ''Karin'' \<mapsto> 5]"
    by (simp add: generate_def example_self_def as_completed_def example_compute_def eval_nat_numeral)
  from generate_order_irrelevant [OF h1 h2 h3 h4] show ?thesis by simp
qed

text \<open>
  Claim C8. Let \<open>self\<close> be a Generator object of the store, with active-model list
  \<open>gens\<close>. A call of \<^verbatim>\<open>generate\<close>, whether it returns or raises, leaves every object
  that existed before it as it was, the Generator object and its list among them. A
  mapping it returns is an object that did not exist before the call, and what the call
  submits, returns or raises is what the method computes from \<open>gens\<close>, the arguments and
  the facility alone, whatever else the store holds. So for a later call on the same
  object: it again leaves every earlier object unchanged, the mapping returned by the
  earlier call included, it returns a different mapping object, and its outcome is the
  one computed from \<open>gens\<close> and its own arguments.
\<close>

theorem generate_store_frame:
  assumes "self_generators h self = Some gens"
  shows "\<exists>h' subs out.
    generate_store dask h self cycle_number curvilinear_distance x_al x_ac = Some (h', subs, out) \<and>
    take (length h) h' = h \<and>
    self_generators h' self = Some gens \<and>
    subs = submitted (generate dask \<lparr>generators = gens\<rparr> cycle_number curvilinear_distance x_al x_ac) \<and>
    (\<forall>e. out = Inl e \<longleftrightarrow>
       returned (generate dask \<lparr>generators = gens\<rparr> cycle_number curvilinear_distance x_al x_ac) =
         Inl e) \<and>
    (\<forall>r. out = Inr r \<longrightarrow>
       length h \<le> r \<and> r < length h' \<and>
       (\<exists>d. h' ! r = Dict d \<and>
          returned (generate dask \<lparr>generators = gens\<rparr> cycle_number curvilinear_distance x_al x_ac) =
            Inr d)) \<and>
    (\<forall>dask' cycle_number' curvilinear_distance' x_al' x_ac'. \<exists>h'' subs' out'.
       generate_store dask' h' self cycle_number' curvilinear_distance' x_al' x_ac' =
         Some (h'', subs', out') \<and>
       take (length h') h'' = h' \<and>
       self_generators h'' self = Some gens \<and>
       subs' = submitted
         (generate dask' \<lparr>generators = gens\<rparr> cycle_number' curvilinear_distance' x_al' x_ac') \<and>
       (\<forall>e. out' = Inl e \<longleftrightarrow>
          returned (generate dask' \<lparr>generators = gens\<rparr>
            cycle_number' curvilinear_distance' x_al' x_ac') = Inl e) \<and>
       (\<forall>r'. out' = Inr r' \<longrightarrow>
          out \<noteq> Inr r' \<and>
          (\<exists>d. h'' ! r' = Dict d \<and>
             returned (generate dask' \<lparr>generators = gens\<rparr>
               cycle_number' curvilinear_distance' x_al' x_ac') = Inr d)) \<and>
       (\<forall>r. out = Inr r \<longrightarrow> h'' ! r = h' ! r))"
proof -
  let ?c = "generate dask \<lparr>generators = gens\<rparr> cycle_number curvilinear_distance x_al x_ac"
  from generate_store_call [OF assms, of dask cycle_number curvilinear_distance x_al x_ac]
  obtain h' out where
    call: "generate_store dask h self cycle_number curvilinear_distance x_al x_ac =
      Some (h', submitted ?c, out)"
    and len: "length h' = Suc (length h)"
    and pre: "take (length h) h' = h"
    and out: "case returned ?c of
       Inl e \<Rightarrow> out = Inl e | Inr d \<Rightarrow> out = Inr (length h) \<and> h' ! length h = Dict d"
    by blast
  note first = generate_store_out [OF out]
  have sg: "self_generators h' self = Some gens"
    using assms pre by (rule self_generators_extend)
  have second: "\<exists>h'' subs' out'.
       generate_store dask' h' self cn' cd' x_al' x_ac' = Some (h'', subs', out') \<and>
       take (length h') h'' = h' \<and>
       self_generators h'' self = Some gens \<and>
       subs' = submitted (generate dask' \<lparr>generators = gens\<rparr> cn' cd' x_al' x_ac') \<and>
       (\<forall>e. out' = Inl e \<longleftrightarrow>
          returned (generate dask' \<lparr>generators = gens\<rparr> cn' cd' x_al' x_ac') = Inl e) \<and>
       (\<forall>r'. out' = Inr r' \<longrightarrow>
          out \<noteq> Inr r' \<and>
          (\<exists>d. h'' ! r' = Dict d \<and>
             returned (generate dask' \<lparr>generators = gens\<rparr> cn' cd' x_al' x_ac') = Inr d)) \<and>
       (\<forall>r. out = Inr r \<longrightarrow> h'' ! r = h' ! r)"
    for dask' cn' cd' x_al' x_ac'
  proof -
    let ?c' = "generate dask' \<lparr>generators = gens\<rparr> cn' cd' x_al' x_ac'"
    from generate_store_call [OF sg, of dask' cn' cd' x_al' x_ac']
    obtain h'' out' where
      call': "generate_store dask' h' self cn' cd' x_al' x_ac' = Some (h'', submitted ?c', out')"
      and pre': "take (length h') h'' = h'"
      and out': "case returned ?c' of
         Inl e \<Rightarrow> out' = Inl e | Inr d \<Rightarrow> out' = Inr (length h') \<and> h'' ! length h' = Dict d"
      by blast
    note snd = generate_store_out [OF out']
    have old: "h'' ! r = h' ! r" if "out = Inr r" for r
    proof -
      from first that have "r = length h" by blast
      with len have "r < length h'" by simp
      with pre' show ?thesis by (metis nth_take)
    qed
    have new: "out \<noteq> Inr r'" if "out' = Inr r'" for r'
    proof
      assume "out = Inr r'"
      with first have "r' = length h" by blast
      moreover from snd that have "r' = length h'" by blast
      ultimately show False using len by simp
    qed
    from call' pre' self_generators_extend [OF sg pre'] snd old new show ?thesis
      by blast
  qed
  have fresh: "length h \<le> r \<and> r < length h'" if "out = Inr r" for r
    using first that len by auto
  from call pre sg first fresh second show ?thesis
    by (intro exI [of _ h'] exI [of _ "submitted ?c"] exI [of _ out]) blast
qed

theorem generate_store_frame_witness:
  "\<exists>h' subs r.
     generate_store \<lparr>compute = example_compute, completion = [1, 0]\<rparr> example_store 1
       1 1000 [0, 1, 2] [-10, 0, 10] = Some (h', subs, Inr r) \<and>
     take 2 h' = example_store \<and> 2 \<le> r \<and>
     h' ! r = Dict [''Karin'' \<mapsto> 5, ''Altimeter'' \<mapsto> 1] \<and>
     (\<exists>h'' subs'.
        generate_store \<lparr>compute = failing_compute, completion = [0, 1]\<rparr> h' 1
          2 1000 [0, 1, 2] [-10, 0, 10] = Some (h'', subs', Inl (External ''worker failed'')) \<and>
        take (length h') h'' = h' \<and> h'' ! r = h' ! r)"
proof -
  let ?d1 = "\<lparr>compute = example_compute, completion = [1, 0]\<rparr>"
  let ?d2 = "\<lparr>compute = failing_compute, completion = [0, 1]\<rparr>"
  let ?gens = "generators example_self"
  have h: "self_generators example_store 1 = Some ?gens"
    by (simp add: self_generators_def example_store_def)
  have len: "length example_store = 2" by (simp add: example_store_def)
  have r1: "returned (generate ?d1 \<lparr>generators = ?gens\<rparr> 1 1000 [0, 1, 2] [-10, 0, 10]) =
      Inr [''Karin'' \<mapsto> 5, ''Altimeter'' \<mapsto> 1]"
    by (simp add: generate_def example_self_def as_completed_def example_compute_def
        eval_nat_numeral)
  have r2: "returned (generate ?d2 \<lparr>generators = ?gens\<rparr> 2 1000 [0, 1, 2] [-10, 0, 10]) =
      Inl (External ''worker failed'')"
    by (simp add: generate_def example_self_def as_completed_def example_compute_def
        failing_compute_def)
  from generate_store_frame [OF h, of ?d1 1 1000 "[0, 1, 2]" "[-10, 0, 10]"]
  obtain h' subs out where
    call: "generate_store ?d1 example_store 1 1 1000 [0, 1, 2] [-10, 0, 10] = Some (h', subs, out)"
    and pre: "take (length example_store) h' = example_store"
    and raised: "\<forall>e. out = Inl e \<longleftrightarrow>
       returned (generate ?d1 \<lparr>generators = ?gens\<rparr> 1 1000 [0, 1, 2] [-10, 0, 10]) = Inl e"
    and ret: "\<forall>r. out = Inr r \<longrightarrow>
       length example_store \<le> r \<and> r < length h' \<and>
       (\<exists>d. h' ! r = Dict d \<and>
          returned (generate ?d1 \<lparr>generators = ?gens\<rparr> 1 1000 [0, 1, 2] [-10, 0, 10]) = Inr d)"
    and later: "\<forall>dask' cycle_number' curvilinear_distance' x_al' x_ac'. \<exists>h'' subs' out'.
       generate_store dask' h' 1 cycle_number' curvilinear_distance' x_al' x_ac' =
         Some (h'', subs', out') \<and>
       take (length h') h'' = h' \<and>
       self_generators h'' 1 = Some ?gens \<and>
       subs' = submitted
         (generate dask' \<lparr>generators = ?gens\<rparr> cycle_number' curvilinear_distance' x_al' x_ac') \<and>
       (\<forall>e. out' = Inl e \<longleftrightarrow>
          returned (generate dask' \<lparr>generators = ?gens\<rparr>
            cycle_number' curvilinear_distance' x_al' x_ac') = Inl e) \<and>
       (\<forall>r'. out' = Inr r' \<longrightarrow>
          out \<noteq> Inr r' \<and>
          (\<exists>d. h'' ! r' = Dict d \<and>
             returned (generate dask' \<lparr>generators = ?gens\<rparr>
               cycle_number' curvilinear_distance' x_al' x_ac') = Inr d)) \<and>
       (\<forall>r. out = Inr r \<longrightarrow> h'' ! r = h' ! r)"
    by (elim exE conjE)
  from raised r1 obtain r where out: "out = Inr r"
    by (cases out) auto
  from ret out r1 len have r: "2 \<le> r" "h' ! r = Dict [''Karin'' \<mapsto> 5, ''Altimeter'' \<mapsto> 1]"
    by auto
  from later [THEN spec [of _ ?d2], THEN spec [of _ 2], THEN spec [of _ 1000],
      THEN spec [of _ "[0, 1, 2]"], THEN spec [of _ "[-10, 0, 10]"]]
  obtain h'' subs' out' where
    call': "generate_store ?d2 h' 1 2 1000 [0, 1, 2] [-10, 0, 10] = Some (h'', subs', out')"
    and pre': "take (length h') h'' = h'"
    and raised': "\<forall>e. out' = Inl e \<longleftrightarrow>
       returned (generate ?d2 \<lparr>generators = ?gens\<rparr> 2 1000 [0, 1, 2] [-10, 0, 10]) = Inl e"
    and old: "\<forall>r. out = Inr r \<longrightarrow> h'' ! r = h' ! r"
    by (elim exE conjE)
  from raised' r2 have out': "out' = Inl (External ''worker failed'')" by simp
  from old out have "h'' ! r = h' ! r" by simp
  with call out pre len r call' out' pre' show ?thesis
    by (intro exI [of _ h'] exI [of _ subs] exI [of _ r] conjI exI [of _ h''] exI [of _ subs'])
      simp_all
qed

text \<open>
  Claim C9. The constructor asserts that the calibration source is set and reads it before
  it looks at the noise list, whatever that list holds: without a source it raises
  \<^verbatim>\<open>AssertionError\<close> and reads nothing; with a source the reader is called once, with
  the source, the sampling interval and the repeat length, also for an empty list or one
  that names only classes that take no channel; and when the reader raises, that
  exception is the constructor's.
\<close>

theorem Generator_init_reads_first:
  "(error_spectrum params = None \<longrightarrow>
      Generator_init read_file_instr params = ([], Inl AssertionError)) \<and>
   (\<forall>path. error_spectrum params = Some path \<longrightarrow>
      fst (Generator_init read_file_instr params) =
        [ReadFileInstr path (delta_al params) (len_repeat params)] \<and>
      (\<forall>e. read_file_instr path (delta_al params) (len_repeat params) = Inl e \<longrightarrow>
         snd (Generator_init read_file_instr params) = Inl e))"
  by (auto simp: Generator_init_def load_spectrum_def split: sum.splits)

theorem Generator_init_reads_first_witness:
  "Generator_init example_reader (example_parameters None [''Karin'']) = ([], Inl AssertionError) \<and>
   fst (Generator_init example_reader (example_parameters (Some ''spectrum.nc'') [])) =
     [ReadFileInstr ''spectrum.nc'' 2 20000] \<and>
   snd (Generator_init example_reader (example_parameters (Some ''missing.nc'') [])) =
     Inl (External ''no such file'')"
proof -
  have h1: "error_spectrum (example_parameters None [''Karin'']) = None"
    by (simp add: example_parameters_def)
  have h2: "error_spectrum (example_parameters (Some ''spectrum.nc'') []) = Some ''spectrum.nc''"
    by (simp add: example_parameters_def)
  have h3: "error_spectrum (example_parameters (Some ''missing.nc'') []) = Some ''missing.nc''"
    by (simp add: example_parameters_def)
  have h4: "example_reader ''missing.nc'' (delta_al (example_parameters (Some ''missing.nc'') []))
      (len_repeat (example_parameters (Some ''missing.nc'') [])) = Inl (External ''no such file'')"
    by (simp add: example_reader_def)
  from Generator_init_reads_first [of "example_parameters None [''Karin'']" example_reader] h1
  have a: "Generator_init example_reader (example_parameters None [''Karin'']) = ([], Inl AssertionError)"
    by blast
  from Generator_init_reads_first [of "example_parameters (Some ''spectrum.nc'') []" example_reader] h2
  have b: "fst (Generator_init example_reader (example_parameters (Some ''spectrum.nc'') [])) =
     [ReadFileInstr ''spectrum.nc'' 2 20000]"
    by (simp add: example_parameters_def)
  from Generator_init_reads_first [of "example_parameters (Some ''missing.nc'') []" example_reader] h3 h4
  have c: "snd (Generator_init example_reader (example_parameters (Some ''missing.nc'') [])) =
     Inl (External ''no such file'')"
    by blast
  from a b c show ?thesis by blast
qed

text \<open>
  Claim C10. Whether the constructor returns an object depends on the source being set and
  read and on every name being a class name, not on the names being distinct; the object
  has one instance per entry of the noise list, repeated names included, so the two lists
  have the same length. No disjointness of field names is checked: when every unit
  returns, \<^verbatim>\<open>generate\<close> on that object returns too, and a key held by more than one
  model carries the value of the model that completed last among them.
\<close>

theorem Generator_keeps_duplicates:
  fixes dask :: "'v facility"
  shows
  "((\<exists>g. snd (Generator_init read_file_instr params) = Inr g) \<longleftrightarrow>
      (\<exists>path es. error_spectrum params = Some path \<and>
         read_file_instr path (delta_al params) (len_repeat params) = Inr es) \<and>
      set (noise params) \<subseteq> set class_names) \<and>
   (\<forall>g. snd (Generator_init read_file_instr params) = Inr g \<longrightarrow>
      map class_name (generators g) = noise params \<and>
      length (generators g) = length (noise params) \<and>
      (\<forall>outs before j after k v.
         x_al \<noteq> [] \<and>
         completion_order (length (noise params)) (completion dask) \<and>
         (\<forall>i<length (noise params).
            future_result dask g cycle_number curvilinear_distance x_al x_ac i = Inr (outs i)) \<and>
         completion dask = before @ j # after \<and>
         outs j k = Some v \<and> (\<forall>i\<in>set after. outs i k = None) \<longrightarrow>
         (\<exists>r. returned (generate dask g cycle_number curvilinear_distance x_al x_ac) = Inr r \<and>
              r k = Some v)))"
proof (intro conjI allI impI)
  show "(\<exists>g. snd (Generator_init read_file_instr params) = Inr g) \<longleftrightarrow>
      (\<exists>path es. error_spectrum params = Some path \<and>
         read_file_instr path (delta_al params) (len_repeat params) = Inr es) \<and>
      set (noise params) \<subseteq> set class_names"
    by (rule Generator_init_succeeds_iff)
next
  fix g
  assume g: "snd (Generator_init read_file_instr params) = Inr g"
  then show names: "map class_name (generators g) = noise params"
    by (rule Generator_init_class_names)
  then show "length (generators g) = length (noise params)"
    by (metis length_map)
next
  fix g and outs :: "nat \<Rightarrow> string \<rightharpoonup> 'v" and before j after k v
  assume g: "snd (Generator_init read_file_instr params) = Inr g"
    and h: "x_al \<noteq> [] \<and>
         completion_order (length (noise params)) (completion dask) \<and>
         (\<forall>i<length (noise params).
            future_result dask g cycle_number curvilinear_distance x_al x_ac i = Inr (outs i)) \<and>
         completion dask = before @ j # after \<and>
         outs j k = Some v \<and> (\<forall>i\<in>set after. outs i k = None)"
  from g have "map class_name (generators g) = noise params"
    by (rule Generator_init_class_names)
  then have len: "length (generators g) = length (noise params)"
    by (metis length_map)
  with h have nd: "x_al \<noteq> []"
    and order: "completion_order (length (generators g)) (completion dask)"
    and outs: "\<forall>i<length (generators g).
            future_result dask g cycle_number curvilinear_distance x_al x_ac i = Inr (outs i)"
    by auto
  from generate_all_Inr [OF nd order outs]
  have ret: "returned (generate dask g cycle_number curvilinear_distance x_al x_ac) =
        Inr (foldl (++) Map.empty (map outs (completion dask)))" .
  have "foldl (++) Map.empty (map outs before @ outs j # map outs after) k = Some v"
  proof (rule merge_last_wins)
    show "outs j k = Some v" using h by blast
    show "\<forall>m'\<in>set (map outs after). m' k = None" using h by simp
  qed
  moreover have "map outs (completion dask) = map outs before @ outs j # map outs after"
    using h by simp
  ultimately show "\<exists>r. returned (generate dask g cycle_number curvilinear_distance x_al x_ac) = Inr r \<and>
              r k = Some v"
    using ret by simp
qed

theorem Generator_keeps_duplicates_witness:
  "\<exists>g. snd (Generator_init example_reader
             (example_parameters (Some ''spectrum.nc'') [''Karin'', ''Karin''])) = Inr g \<and>
       length (generators g) = 2 \<and>
       (\<exists>r. returned (generate \<lparr>compute = example_compute, completion = [1, 0]\<rparr> g
               1 1000 [0, 1, 2] [-10, 0, 10]) = Inr r \<and> r ''Karin'' = Some 4)"
proof -
  let ?p = "example_parameters (Some ''spectrum.nc'') [''Karin'', ''Karin'']"
  let ?dask = "\<lparr>compute = example_compute, completion = [1, 0]\<rparr>"
  let ?outs = "\<lambda>i::nat. [''Karin'' \<mapsto> i + 4]"
  note dup = Generator_keeps_duplicates [of example_reader ?p "[0, 1, 2]" ?dask 1 1000 "[-10, 0, 10]"]
  have n: "noise ?p = [''Karin'', ''Karin'']" by (simp add: example_parameters_def)
  have "(\<exists>path es. error_spectrum ?p = Some path \<and>
           example_reader path (delta_al ?p) (len_repeat ?p) = Inr es) \<and>
        set (noise ?p) \<subseteq> set class_names"
    by (simp add: example_parameters_def example_reader_def class_names_def)
  with dup [THEN conjunct1] have "\<exists>g. snd (Generator_init example_reader ?p) = Inr g"
    by (rule iffD2)
  then obtain g where g: "snd (Generator_init example_reader ?p) = Inr g" ..
  note part = dup [THEN conjunct2, THEN spec [of _ g], THEN mp, OF g]
  from part have names: "map class_name (generators g) = noise ?p" by (rule conjunct1)
  from part [THEN conjunct2] have len: "length (generators g) = length (noise ?p)"
    by (rule conjunct1)
  have karin: "\<exists>p'. generators g ! i = Karin p'" if "i < 2" for i
  proof -
    from that len n have "class_name (generators g ! i) = map class_name (generators g) ! i"
      by simp
    also from names n have "\<dots> = [''Karin'', ''Karin''] ! i" by simp
    also from that have "\<dots> = ''Karin''" by (auto simp: less_2_cases_iff)
    finally show ?thesis by (cases "generators g ! i") simp_all
  qed
  have outs: "\<forall>i<length (noise ?p).
      future_result ?dask g 1 1000 [0, 1, 2] [-10, 0, 10] i = Inr (?outs i)"
  proof (intro allI impI)
    fix i assume "i < length (noise ?p)"
    with n have "i < 2" by simp
    from karin [OF this] obtain p' where "generators g ! i = Karin p'" ..
    then show "future_result ?dask g 1 1000 [0, 1, 2] [-10, 0, 10] i = Inr (?outs i)"
      by (simp add: future_result_def example_compute_def eval_nat_numeral)
  qed
  have hyp: "[0, 1, 2 :: real] \<noteq> [] \<and>
         completion_order (length (noise ?p)) (completion ?dask) \<and>
         (\<forall>i<length (noise ?p).
            future_result ?dask g 1 1000 [0, 1, 2] [-10, 0, 10] i = Inr (?outs i)) \<and>
         completion ?dask = [1] @ 0 # [] \<and>
         ?outs 0 ''Karin'' = Some 4 \<and> (\<forall>i\<in>set []. ?outs i ''Karin'' = None)"
    using outs by (simp add: n completion_order_def)
  note over = part [THEN conjunct2, THEN conjunct2, THEN spec [of _ ?outs], THEN spec [of _ "[1]"],
      THEN spec [of _ 0], THEN spec [of _ "[]"], THEN spec [of _ "''Karin''"],
      THEN spec [of _ 4], THEN mp, OF hyp]
  from len n have "length (generators g) = 2" by simp
  with g over show ?thesis by blast
qed

end
